theory Spec2Isabelle
  imports Complex_Main "HOL-Library.Word" "HOL-Library.Log_Nat"
begin

section \<open>Machine types of the target\<close>

text \<open>
  The firmware is built for a 32-bit target: \<open>uint8_t\<close>, \<open>uint16_t\<close> and
  \<open>unsigned long\<close> are 8, 16 and 32 bits wide, \<open>int\<close> is a 32-bit two's complement
  integer and \<open>float\<close> is IEEE-754 binary32. Unsigned arithmetic wraps around, which the
  word types do by themselves.
\<close>

type_synonym u8 = "8 word"
type_synonym u16 = "16 word"
type_synonym u32 = "32 word"
type_synonym i32 = "32 word"  \<comment> \<open>an \<open>int\<close>: the same 32 bits, read by \<open>sint\<close>\<close>

section \<open>binary32 arithmetic\<close>

text \<open>
  A \<open>float\<close> is modelled by its value: a rational for a finite number, and one constructor
  for each of negative zero, the two infinities and NaN (the payload and the sign of a NaN
  are not tracked). Every operation computes the exact rational result and rounds it to the
  nearest binary32 value, ties to the even significand, as the hardware and the compiler's
  default rounding mode do.
\<close>

datatype f32 = Fin rat | NegZero | PInf | NInf | NaN

definition pow2 :: "int \<Rightarrow> rat" where
  "pow2 k = (if 0 \<le> k then 2 ^ nat k else 1 / 2 ^ nat (- k))"

text \<open>\<open>flog2 x\<close> is the integer \<open>e\<close> with \<open>2^e \<le> x < 2^(e+1)\<close>, for positive \<open>x\<close>.\<close>

definition flog2 :: "rat \<Rightarrow> int" where
  "flog2 x = (if 1 \<le> x then bitlen \<lfloor>x\<rfloor> - 1 else - bitlen (\<lceil>1 / x\<rceil> - 1))"

definition round_half_even :: "rat \<Rightarrow> int" where
  "round_half_even x =
     (let f = \<lfloor>x\<rfloor>; d = x - of_int f
      in if d < 1 / 2 then f else if 1 / 2 < d then f + 1 else if even f then f else f + 1)"

text \<open>
  Rounding to binary32: the unit in the last place is \<open>2^(e - 23)\<close> with \<open>e\<close> the binary
  exponent of the value, not below \<open>-126\<close> (the subnormal range); a magnitude that rounds
  to \<open>2^128\<close> or more overflows to an infinity, one that rounds to nothing keeps its sign.
\<close>

definition round_f32 :: "rat \<Rightarrow> f32" where
  "round_f32 x =
     (if x = 0 then Fin 0
      else let e = max (flog2 \<bar>x\<bar>) (- 126);
               u = pow2 (e - 23);
               r = of_int (round_half_even (\<bar>x\<bar> / u)) * u
           in if pow2 128 \<le> r then (if 0 < x then PInf else NInf)
              else if r = 0 then (if 0 < x then Fin 0 else NegZero)
              else Fin (if 0 < x then r else - r))"

fun f32_val :: "f32 \<Rightarrow> rat" where
  "f32_val (Fin q) = q"
| "f32_val _ = 0"

fun sign_bit :: "f32 \<Rightarrow> bool" where
  "sign_bit (Fin q) = (q < 0)"
| "sign_bit NegZero = True"
| "sign_bit NInf = True"
| "sign_bit _ = False"

definition is_inf :: "f32 \<Rightarrow> bool" where
  "is_inf a = (a = PInf \<or> a = NInf)"

definition is_zero :: "f32 \<Rightarrow> bool" where
  "is_zero a = (a = Fin 0 \<or> a = NegZero)"

definition signed_zero :: "bool \<Rightarrow> f32" where
  "signed_zero s = (if s then NegZero else Fin 0)"

definition signed_inf :: "bool \<Rightarrow> f32" where
  "signed_inf s = (if s then NInf else PInf)"

fun fneg :: "f32 \<Rightarrow> f32" where
  "fneg (Fin q) = (if q = 0 then NegZero else Fin (- q))"
| "fneg NegZero = Fin 0"
| "fneg PInf = NInf"
| "fneg NInf = PInf"
| "fneg NaN = NaN"

definition fadd :: "f32 \<Rightarrow> f32 \<Rightarrow> f32" where
  "fadd a b =
     (if a = NaN \<or> b = NaN then NaN
      else if is_inf a then (if is_inf b \<and> b \<noteq> a then NaN else a)
      else if is_inf b then b
      else if a = NegZero \<and> b = NegZero then NegZero
      else round_f32 (f32_val a + f32_val b))"

definition fsub :: "f32 \<Rightarrow> f32 \<Rightarrow> f32" where
  "fsub a b = fadd a (fneg b)"

definition fmul :: "f32 \<Rightarrow> f32 \<Rightarrow> f32" where
  "fmul a b =
     (if a = NaN \<or> b = NaN then NaN
      else if is_inf a \<or> is_inf b then
        (if is_zero a \<or> is_zero b then NaN else signed_inf (sign_bit a \<noteq> sign_bit b))
      else if is_zero a \<or> is_zero b then signed_zero (sign_bit a \<noteq> sign_bit b)
      else round_f32 (f32_val a * f32_val b))"

definition fdiv :: "f32 \<Rightarrow> f32 \<Rightarrow> f32" where
  "fdiv a b =
     (if a = NaN \<or> b = NaN then NaN
      else if is_inf a then (if is_inf b then NaN else signed_inf (sign_bit a \<noteq> sign_bit b))
      else if is_inf b then signed_zero (sign_bit a \<noteq> sign_bit b)
      else if is_zero b then (if is_zero a then NaN else signed_inf (sign_bit a \<noteq> sign_bit b))
      else if is_zero a then signed_zero (sign_bit a \<noteq> sign_bit b)
      else round_f32 (f32_val a / f32_val b))"

text \<open>The comparison \<open>a < b\<close>: false as soon as one side is NaN; the two zeros are equal.\<close>

fun flt :: "f32 \<Rightarrow> f32 \<Rightarrow> bool" where
  "flt NaN _ = False"
| "flt _ NaN = False"
| "flt PInf _ = False"
| "flt _ NInf = False"
| "flt NInf _ = True"
| "flt _ PInf = True"
| "flt a b = (f32_val a < f32_val b)"

text \<open>Conversions. C++ leaves the conversion of a \<open>float\<close> to \<open>int\<close> undefined when the
  truncated value does not fit (NaN and the infinities included): the model returns
  \<open>None\<close> there.\<close>

definition f32_of_int :: "int \<Rightarrow> f32" where
  "f32_of_int i = round_f32 (of_int i)"

definition f32_of_u32 :: "u32 \<Rightarrow> f32" where
  "f32_of_u32 w = round_f32 (of_int (uint w))"

definition truncate_rat :: "rat \<Rightarrow> int" where
  "truncate_rat q = (if 0 \<le> q then \<lfloor>q\<rfloor> else \<lceil>q\<rceil>)"

fun f32_to_int :: "f32 \<Rightarrow> int option" where
  "f32_to_int (Fin q) =
     (let t = truncate_rat q in if - (2 ^ 31) \<le> t \<and> t < 2 ^ 31 then Some t else None)"
| "f32_to_int NegZero = Some 0"
| "f32_to_int _ = None"

text \<open>Decoding the four bytes of a binary32, given as the unsigned number they spell.\<close>

definition f32_of_bits :: "int \<Rightarrow> f32" where
  "f32_of_bits w =
     (let s = (w div 2 ^ 31) mod 2 = 1;
          e = (w div 2 ^ 23) mod 256;
          m = w mod 2 ^ 23
      in if e = 255 then (if m = 0 then signed_inf s else NaN)
         else if e = 0 then
           (if m = 0 then signed_zero s
            else Fin ((if s then - 1 else 1) * of_int m * pow2 (- 149)))
         else Fin ((if s then - 1 else 1) * of_int (2 ^ 23 + m) * pow2 (e - 150)))"

section \<open>Library calls the firmware uses\<close>

text \<open>The Arduino macro
  \<^verbatim>\<open>constrain(amt,low,high) ((amt)<(low)?(low):((amt)>(high)?(high):(amt)))\<close>
  at \<open>float\<close> and at \<open>int\<close>.\<close>

definition constrain_f32 :: "f32 \<Rightarrow> f32 \<Rightarrow> f32 \<Rightarrow> f32" where
  "constrain_f32 amt low high = (if flt amt low then low else if flt high amt then high else amt)"

definition constrain_int :: "int \<Rightarrow> int \<Rightarrow> int \<Rightarrow> int" where
  "constrain_int amt low high = (if amt < low then low else if amt > high then high else amt)"

text \<open>Arduino's \<open>map\<close> on \<open>long\<close>:
  \<^verbatim>\<open>(x - in_min) * (out_max - out_min) / (in_max - in_min) + out_min\<close>,
  where the quotient of C is cut towards zero.\<close>

definition c_quot :: "int \<Rightarrow> int \<Rightarrow> int" where
  "c_quot a b = (if (a < 0) = (b < 0) then \<bar>a\<bar> div \<bar>b\<bar> else - (\<bar>a\<bar> div \<bar>b\<bar>))"

definition map_long :: "int \<Rightarrow> int \<Rightarrow> int \<Rightarrow> int \<Rightarrow> int \<Rightarrow> int" where
  "map_long x in_min in_max out_min out_max =
     c_quot ((x - in_min) * (out_max - out_min)) (in_max - in_min) + out_min"

subsection \<open>Formatted output\<close>

text \<open>The decimal digits of a number that is not negative.\<close>

definition digit_char :: "int \<Rightarrow> char" where
  "digit_char d = ''0123456789'' ! nat (d mod 10)"

function show_dec :: "int \<Rightarrow> string" where
  "show_dec n = (if n < 10 then [digit_char n] else show_dec (n div 10) @ [digit_char (n mod 10)])"
  by pat_completeness auto
termination
  by (relation "measure nat") auto

declare show_dec.simps [simp del]

text \<open>\<^verbatim>\<open>%d\<close>\<close>

definition fmt_d :: "int \<Rightarrow> string" where
  "fmt_d i = (if i < 0 then ''-'' @ show_dec (- i) else show_dec i)"

text \<open>\<^verbatim>\<open>%.1f\<close>: the value is passed as a \<open>double\<close>, which holds every \<open>float\<close>
  exactly, and is printed with one digit after the point, correctly rounded (an exact tie
  goes to the even digit).\<close>

fun fmt_1f :: "f32 \<Rightarrow> string" where
  "fmt_1f (Fin q) =
     (let n = round_half_even (\<bar>q\<bar> * 10)
      in (if q < 0 then ''-'' else '''') @ show_dec (n div 10) @ ''.'' @ show_dec (n mod 10))"
| "fmt_1f NegZero = ''-0.0''"
| "fmt_1f PInf = ''inf''"
| "fmt_1f NInf = ''-inf''"
| "fmt_1f NaN = ''nan''"

declare fmt_1f.simps [simp del]

text \<open>\<open>snprintf(buf, n, ...)\<close> stores at most \<open>n - 1\<close> characters of the formatted
  text.\<close>

definition snprintf :: "nat \<Rightarrow> string \<Rightarrow> string" where
  "snprintf n s = take (n - 1) s"

section \<open>The packet and the program state\<close>

text \<open>
  \<^verbatim>\<open>typedef struct { uint16_t rpm; float batt; float motor; float dk; float gp; uint8_t funk; } DashPacket;\<close>

  On the target a \<open>float\<close> is aligned to four bytes and the byte order is little-endian:
  \<open>rpm\<close> is at offset 0, \<open>batt\<close> at 4, \<open>motor\<close> at 8, \<open>dk\<close> at 12, \<open>gp\<close> at 16, \<open>funk\<close> at 20,
  and the structure takes 24 bytes. \<open>latestData\<close> is kept as these bytes, which is what
  \<open>memcpy\<close> writes; the fields the firmware reads are decoded from them.
\<close>

definition sizeof_DashPacket :: nat where
  "sizeof_DashPacket = 24"

fun le_int :: "u8 list \<Rightarrow> int" where
  "le_int [] = 0"
| "le_int (b # bs) = uint b + 256 * le_int bs"

definition pkt_rpm :: "u8 list \<Rightarrow> u16" where
  "pkt_rpm bs = word_of_int (le_int (take 2 bs))"

definition pkt_batt :: "u8 list \<Rightarrow> f32" where
  "pkt_batt bs = f32_of_bits (le_int (take 4 (drop 4 bs)))"

text \<open>
  The globals of the program, and what each widget was last set to. \<open>ui_link_dot\<close> is
  \<open>None\<close> for the null pointer and otherwise holds the background colour of the dot.
\<close>

record state =
  latestData :: "u8 list"
  hasNewData :: bool
  lastTripMillis :: u32
  totalDistanceKm :: f32
  ui_link_dot :: "u32 option"
  lastPacketMillis :: u32
  ui_slider_speed :: int
  ui_lbl_speed :: string
  ui_roller_mode :: nat
  ui_lbl_trip_value :: string
  ui_bar_battery :: int
  ui_lbl_battery_value :: string
  ui_lbl_range :: string
  ui_slider_range :: int

text \<open>The static initialisers; the widgets, which \<open>ui_init\<close> creates, start out blank.\<close>

definition boot_state :: state where
  "boot_state =
     \<lparr> latestData = replicate sizeof_DashPacket 0, hasNewData = False, lastTripMillis = 0,
       totalDistanceKm = Fin 0, ui_link_dot = None, lastPacketMillis = 0,
       ui_slider_speed = 0, ui_lbl_speed = [], ui_roller_mode = 0, ui_lbl_trip_value = [],
       ui_bar_battery = 0, ui_lbl_battery_value = [], ui_lbl_range = [], ui_slider_range = 0 \<rparr>"

section \<open>The receive callback\<close>

text \<open>\<open>len\<close> is an \<open>int\<close> and is compared with a \<open>size_t\<close>, so its 32 bits are read
  as an unsigned number first: a negative \<open>len\<close> becomes a large number and never equals
  the size. \<open>memcpy\<close> takes the first \<open>sizeof(DashPacket)\<close> bytes of the buffer, which
  holds \<open>len\<close> bytes when the transport calls (of a shorter list the model copies what
  there is). \<open>now\<close> is what \<open>millis()\<close> returns in the call.\<close>

definition onDataRecv :: "state \<Rightarrow> u8 list \<Rightarrow> i32 \<Rightarrow> u32 \<Rightarrow> state" where
  "onDataRecv st incomingData len now =
     (if uint len = int sizeof_DashPacket
      then st\<lparr> latestData := take sizeof_DashPacket incomingData,
               hasNewData := True,
               lastPacketMillis := now \<rparr>
      else st)"

section \<open>The connection indicator\<close>

definition create_link_indicator :: "state \<Rightarrow> state" where
  "create_link_indicator st = st\<lparr> ui_link_dot := Some 0xFF0000 \<rparr>"

definition update_link_indicator :: "state \<Rightarrow> u32 \<Rightarrow> state" where
  "update_link_indicator st now =
     (case ui_link_dot st of
        None \<Rightarrow> st
      | Some _ \<Rightarrow>
          let link_ok = (now - lastPacketMillis st < 1000)
          in st\<lparr> ui_link_dot := Some (if link_ok then 0x00FF00 else 0xFF0000) \<rparr>)"

section \<open>Updating the widgets from the latest packet\<close>

text \<open>Step 1: \<open>rpm\<close> is promoted to \<open>int\<close> and divided by 32.\<close>

definition speedValue_of :: "u16 \<Rightarrow> int" where
  "speedValue_of rpm =
     (let speedValue = uint rpm div 32;
          speedValue = (if speedValue < 0 then 0 else speedValue);
          speedValue = (if speedValue > 250 then 250 else speedValue)
      in speedValue)"

text \<open>Step 2: the index the roller is set to.\<close>

definition roller_mode_of :: "int \<Rightarrow> nat" where
  "roller_mode_of speedValue =
     (if speedValue < 60 then 0
      else if speedValue < 80 then 1
      else if speedValue < 140 then 2
      else 3)"

text \<open>Step 3: the trip distance; \<open>now - lastTripMillis\<close> is an \<open>unsigned long\<close>
  difference, converted to \<open>float\<close> for the division.\<close>

definition trip_step :: "state \<Rightarrow> int \<Rightarrow> u32 \<Rightarrow> state" where
  "trip_step st speedValue now =
     (if lastTripMillis st = 0 then st\<lparr> lastTripMillis := now \<rparr>
      else
        let hours = fdiv (f32_of_u32 (now - lastTripMillis st)) (Fin 3600000)
        in st\<lparr> totalDistanceKm := fadd (totalDistanceKm st) (fmul (f32_of_int speedValue) hours),
                lastTripMillis := now \<rparr>)"

text \<open>Step 4: the battery percentage; there is none where the conversion of the
  \<open>float\<close> to \<open>int\<close> is undefined.\<close>

definition battPercent_of :: "f32 \<Rightarrow> int option" where
  "battPercent_of v =
     (let batt = constrain_f32 v (Fin 10) (Fin 14)
      in case f32_to_int (fmul (fdiv (fsub batt (Fin 10)) (Fin 4)) (Fin 100)) of
           None \<Rightarrow> None
         | Some battPercent \<Rightarrow> Some (constrain_int battPercent 0 100))"

definition updateUIFromData :: "state \<Rightarrow> u32 \<Rightarrow> state option" where
  "updateUIFromData st now =
     (let speedValue = speedValue_of (pkt_rpm (latestData st));
          st = st\<lparr> ui_slider_speed := speedValue,
                   ui_lbl_speed := snprintf 10 (fmt_d speedValue),
                   ui_roller_mode := roller_mode_of speedValue \<rparr>;
          st = trip_step st speedValue now;
          st = st\<lparr> ui_lbl_trip_value := snprintf 20 (fmt_1f (totalDistanceKm st) @ '' '') \<rparr>
      in case battPercent_of (pkt_batt (latestData st)) of
           None \<Rightarrow> None
         | Some battPercent \<Rightarrow>
             Some (st\<lparr> ui_bar_battery := battPercent,
                       ui_lbl_battery_value := snprintf 10 (fmt_d battPercent @ ''%''),
                       ui_lbl_range := snprintf 10 (fmt_1f (pkt_batt (latestData st)) @ ''V''),
                       ui_slider_range := map_long battPercent 0 100 0 70 \<rparr>))"

section \<open>Start-up and the render loop\<close>

text \<open>Of \<open>setup()\<close>, what touches the state above: the indicator is created and the trip
  timestamp is set to the current \<open>millis()\<close>.\<close>

definition setup_fw :: "state \<Rightarrow> u32 \<Rightarrow> state" where
  "setup_fw st now = (create_link_indicator st)\<lparr> lastTripMillis := now \<rparr>"

text \<open>One pass of \<open>loop()\<close>; \<open>now_ui\<close> and \<open>now_link\<close> are the values \<open>millis()\<close>
  returns in \<open>updateUIFromData\<close> and in \<open>update_link_indicator\<close>. The calls
  \<open>lv_timer_handler()\<close> and \<open>delay(5)\<close> redraw and wait; they change nothing of the state
  modelled here.\<close>

definition loop :: "state \<Rightarrow> u32 \<Rightarrow> u32 \<Rightarrow> state option" where
  "loop st now_ui now_link =
     (if hasNewData st then
        (case updateUIFromData (st\<lparr> hasNewData := False \<rparr>) now_ui of
           None \<Rightarrow> None
         | Some st' \<Rightarrow> Some (update_link_indicator st' now_link))
      else Some (update_link_indicator st now_link))"

text \<open>A run after \<open>setup()\<close>: deliveries to the callback and passes of the loop, in the
  order they happen.\<close>

datatype event = Recv "u8 list" i32 u32 | Tick u32 u32

fun step :: "state \<Rightarrow> event \<Rightarrow> state option" where
  "step st (Recv incomingData len now) = Some (onDataRecv st incomingData len now)"
| "step st (Tick now_ui now_link) = loop st now_ui now_link"

fun run :: "state \<Rightarrow> event list \<Rightarrow> state option" where
  "run st [] = Some st"
| "run st (ev # evs) = (case step st ev of None \<Rightarrow> None | Some st' \<Rightarrow> run st' evs)"

text \<open>
  The receive callback is called by the Wi-Fi task, not by \<open>loop()\<close>, and nothing in the
  source keeps it from running while \<open>updateUIFromData\<close> does. \<open>updateUIFromData\<close> takes
  no copy of \<open>latestData\<close>: it reads \<open>latestData.rpm\<close> in line 131 and
  \<open>latestData.batt\<close> in lines 162 and 175. The two definitions below are the function cut
  between these reads, after line 159: the first part is steps 1 to 3, the second part
  steps 4 to 6.
\<close>

definition updateUIFromData_upto_trip :: "state \<Rightarrow> u32 \<Rightarrow> state" where
  "updateUIFromData_upto_trip st now =
     (let speedValue = speedValue_of (pkt_rpm (latestData st));
          st = st\<lparr> ui_slider_speed := speedValue,
                   ui_lbl_speed := snprintf 10 (fmt_d speedValue),
                   ui_roller_mode := roller_mode_of speedValue \<rparr>;
          st = trip_step st speedValue now
      in st\<lparr> ui_lbl_trip_value := snprintf 20 (fmt_1f (totalDistanceKm st) @ '' '') \<rparr>)"

definition updateUIFromData_from_battery :: "state \<Rightarrow> state option" where
  "updateUIFromData_from_battery st =
     (case battPercent_of (pkt_batt (latestData st)) of
        None \<Rightarrow> None
      | Some battPercent \<Rightarrow>
          Some (st\<lparr> ui_bar_battery := battPercent,
                    ui_lbl_battery_value := snprintf 10 (fmt_d battPercent @ ''%''),
                    ui_lbl_range := snprintf 10 (fmt_1f (pkt_batt (latestData st)) @ ''V''),
                    ui_slider_range := map_long battPercent 0 100 0 70 \<rparr>))"

text \<open>A pass of \<open>loop()\<close> during which the callback runs once, as a whole, between the two
  parts of \<open>updateUIFromData\<close>; \<open>now_recv\<close> is what \<open>millis()\<close> returns in the callback.\<close>

definition loop_preempted :: "state \<Rightarrow> u32 \<Rightarrow> u8 list \<Rightarrow> i32 \<Rightarrow> u32 \<Rightarrow> u32 \<Rightarrow> state option" where
  "loop_preempted st now_ui incomingData len now_recv now_link =
     (if hasNewData st then
        (case updateUIFromData_from_battery
                (onDataRecv (updateUIFromData_upto_trip (st\<lparr> hasNewData := False \<rparr>) now_ui)
                   incomingData len now_recv) of
           None \<Rightarrow> None
         | Some st' \<Rightarrow> Some (update_link_indicator st' now_link))
      else Some (update_link_indicator (onDataRecv st incomingData len now_recv) now_link))"

text \<open>A delivery that is not a frame: the length differs from the size of the packet.\<close>

fun no_frame :: "event \<Rightarrow> bool" where
  "no_frame (Recv incomingData len now) = (sint len \<noteq> 24)"
| "no_frame (Tick now_ui now_link) = True"

text \<open>The bytes of a packet with the given \<open>rpm\<close> and the given bit pattern of \<open>batt\<close>,
  the other fields and the padding zero: what a sender on the same architecture transmits.\<close>

definition packet_bytes :: "int \<Rightarrow> int \<Rightarrow> u8 list" where
  "packet_bytes r b =
     [word_of_int (r mod 256), word_of_int (r div 256), 0, 0,
      word_of_int (b mod 256), word_of_int (b div 256 mod 256),
      word_of_int (b div 65536 mod 256), word_of_int (b div 16777216),
      0, 0, 0, 0, 0, 0, 0, 0, 0, 0, 0, 0, 0, 0, 0, 0]"

text \<open>What holds of the globals as long as no frame has been accepted: nothing is pending,
  the arrival timestamp still has its initial value and the indicator exists.\<close>

definition idle :: "state \<Rightarrow> bool" where
  "idle st \<longleftrightarrow> \<not> hasNewData st \<and> lastPacketMillis st = 0 \<and> ui_link_dot st \<noteq> None"

text \<open>States to compute with: \<open>setup()\<close> ran when \<open>millis()\<close> was 600, and the callback
  took a frame with \<open>rpm = 3200\<close> and a \<open>batt\<close> of bit pattern \<open>b\<close> at 3600000. In
  \<open>example_state\<close> that \<open>batt\<close> is 12.0 (\<open>0x41400000\<close>).\<close>

definition frame_state :: "int \<Rightarrow> state" where
  "frame_state b = onDataRecv (setup_fw boot_state 600) (packet_bytes 3200 b) 24 3600000"

definition example_state :: state where
  "example_state = frame_state 0x41400000"

section \<open>Basic facts\<close>

lemma speedValue_of_clamp: "speedValue_of rpm = max 0 (min 250 (uint rpm div 32))"
  by (simp add: speedValue_of_def Let_def max_def min_def)

lemma trip_step_total:
  "totalDistanceKm (trip_step st sv now) =
     (if lastTripMillis st = 0 then totalDistanceKm st
      else fadd (totalDistanceKm st)
             (fmul (f32_of_int sv) (fdiv (f32_of_u32 (now - lastTripMillis st)) (Fin 3600000))))"
  by (simp add: trip_step_def Let_def)

text \<open>The whole of \<open>updateUIFromData\<close>, field by field.\<close>

lemma updateUIFromData_eq:
  "updateUIFromData st now =
     (case battPercent_of (pkt_batt (latestData st)) of
        None \<Rightarrow> None
      | Some p \<Rightarrow>
          Some \<lparr> latestData = latestData st, hasNewData = hasNewData st, lastTripMillis = now,
                 totalDistanceKm =
                   totalDistanceKm (trip_step st (speedValue_of (pkt_rpm (latestData st))) now),
                 ui_link_dot = ui_link_dot st, lastPacketMillis = lastPacketMillis st,
                 ui_slider_speed = speedValue_of (pkt_rpm (latestData st)),
                 ui_lbl_speed = snprintf 10 (fmt_d (speedValue_of (pkt_rpm (latestData st)))),
                 ui_roller_mode = roller_mode_of (speedValue_of (pkt_rpm (latestData st))),
                 ui_lbl_trip_value =
                   snprintf 20
                     (fmt_1f (totalDistanceKm
                        (trip_step st (speedValue_of (pkt_rpm (latestData st))) now)) @ '' ''),
                 ui_bar_battery = p,
                 ui_lbl_battery_value = snprintf 10 (fmt_d p @ ''%''),
                 ui_lbl_range = snprintf 10 (fmt_1f (pkt_batt (latestData st)) @ ''V''),
                 ui_slider_range = map_long p 0 100 0 70 \<rparr>)"
  by (cases st) (simp add: updateUIFromData_def trip_step_def Let_def split: option.split)

lemma updateUIFromData_defined:
  "battPercent_of (pkt_batt (latestData st)) = Some p \<Longrightarrow>
   updateUIFromData st now = Some (the (updateUIFromData st now))"
  by (simp add: updateUIFromData_eq)

lemma uint_is_24: "uint (len :: i32) = 24 \<longleftrightarrow> len = 24"
  by (simp add: word_uint_eq_iff)

lemma sint_is_24: "sint (len :: i32) = 24 \<longleftrightarrow> len = 24"
  using word_eq_iff_signed [of len 24, where ?'a = int] by simp

lemma onDataRecv_frame:
  "sint len = 24 \<Longrightarrow>
   onDataRecv st incomingData len now =
     st\<lparr> latestData := take 24 incomingData, hasNewData := True, lastPacketMillis := now \<rparr>"
  by (simp add: onDataRecv_def sizeof_DashPacket_def uint_is_24 sint_is_24)

lemma onDataRecv_other: "sint len \<noteq> 24 \<Longrightarrow> onDataRecv st incomingData len now = st"
  by (simp add: onDataRecv_def sizeof_DashPacket_def uint_is_24 sint_is_24)

lemma loop_new:
  "hasNewData st \<Longrightarrow>
   loop st a b =
     map_option (\<lambda>s. update_link_indicator s b) (updateUIFromData (st\<lparr> hasNewData := False \<rparr>) a)"
  by (simp add: loop_def split: option.split)

lemma loop_idle: "\<not> hasNewData st \<Longrightarrow> loop st a b = Some (update_link_indicator st b)"
  by (simp add: loop_def)

lemma update_link_total [simp]:
  "totalDistanceKm (update_link_indicator st b) = totalDistanceKm st"
  by (simp add: update_link_indicator_def Let_def split: option.split)

lemma run_append:
  "run st (xs @ ys) = (case run st xs of None \<Rightarrow> None | Some st' \<Rightarrow> run st' ys)"
  by (induction xs arbitrary: st) (simp_all split: option.split)

lemma run_recv_tick: "run st [Recv d len t, Tick a b] = loop (onDataRecv st d len t) a b"
  by (simp split: option.split)

subsection \<open>The example state\<close>

lemma length_packet_bytes: "length (packet_bytes r b) = 24"
  by (simp add: packet_bytes_def)

lemma frame_state_eq:
  "frame_state b =
     (setup_fw boot_state 600)\<lparr> latestData := packet_bytes 3200 b,
        hasNewData := True, lastPacketMillis := 3600000 \<rparr>"
  unfolding frame_state_def by (subst onDataRecv_frame) (simp_all add: length_packet_bytes)

lemma latestData_frame_state [simp]: "latestData (frame_state b) = packet_bytes 3200 b"
  by (simp add: frame_state_eq)

lemma example_state_eq:
  "example_state =
     (setup_fw boot_state 600)\<lparr> latestData := packet_bytes 3200 0x41400000,
        hasNewData := True, lastPacketMillis := 3600000 \<rparr>"
  by (simp add: example_state_def frame_state_eq)

lemma example_rpm: "pkt_rpm (packet_bytes 3200 0x41400000) = 3200"
  by code_simp

lemma example_batt: "pkt_batt (packet_bytes 3200 0x41400000) = Fin 12"
  by code_simp

lemma example_speed: "speedValue_of 3200 = 100"
  by code_simp

lemma example_percent: "battPercent_of (Fin 12) = Some 50"
  by code_simp

lemma example_hour:
  "fmul (f32_of_int 100) (fdiv (f32_of_u32 3600000) (Fin 3600000)) = Fin 100"
  by code_simp

lemma example_sum: "fadd (Fin 0) (Fin 100) = Fin 100"
  by code_simp

lemmas example_simps =
  example_state_eq example_rpm example_batt example_speed example_percent example_hour
  example_sum setup_fw_def create_link_indicator_def boot_state_def

section \<open>The speed scale\<close>

text \<open>
  C4: for every 16-bit \<open>rpm\<close> the speed value is \<open>rpm / 32\<close> in integer division, clamped
  to 0..250; it never decreases when \<open>rpm\<close> grows, it is 0 at \<open>rpm = 0\<close> and 250 for every
  \<open>rpm\<close> from 8000 on. \<open>updateUIFromData\<close> sets the speed slider to the speed value of
  the \<open>rpm\<close> of the packet.
\<close>

theorem speedValue_rescale:
  "speedValue_of rpm = max 0 (min 250 (uint rpm div 32))
   \<and> (r1 \<le> r2 \<longrightarrow> speedValue_of r1 \<le> speedValue_of r2)
   \<and> speedValue_of 0 = 0
   \<and> (8000 \<le> rpm \<longrightarrow> speedValue_of rpm = 250)
   \<and> (updateUIFromData st now = Some st' \<longrightarrow>
        ui_slider_speed st' = speedValue_of (pkt_rpm (latestData st)))"
proof -
  have ui: "ui_slider_speed st' = speedValue_of (pkt_rpm (latestData st))"
    if "updateUIFromData st now = Some st'"
    using that by (auto simp: updateUIFromData_eq split: option.splits)
  have mono: "speedValue_of r1 \<le> speedValue_of r2" if "r1 \<le> r2"
  proof -
    from that have "uint r1 \<le> uint r2" by (simp add: word_le_def)
    then have "uint r1 div 32 \<le> uint r2 div 32" by (rule zdiv_mono1) simp
    then show ?thesis by (simp add: speedValue_of_clamp)
  qed
  have sat: "speedValue_of rpm = 250" if "8000 \<le> rpm"
  proof -
    from that have "8000 \<le> uint rpm" by (simp add: word_le_def)
    then have "250 \<le> uint rpm div 32" by simp
    then show ?thesis by (simp add: speedValue_of_clamp)
  qed
  have z: "speedValue_of 0 = 0" by (simp add: speedValue_of_clamp)
  show ?thesis using mono sat z ui speedValue_of_clamp by blast
qed

theorem speedValue_rescale_witness:
  "(100 :: u16) \<le> 200 \<and> speedValue_of 100 \<le> speedValue_of 200
   \<and> (8000 :: u16) \<le> 8000 \<and> speedValue_of 8000 = 250
   \<and> updateUIFromData example_state 3600600 = Some (the (updateUIFromData example_state 3600600))
   \<and> ui_slider_speed (the (updateUIFromData example_state 3600600)) = 100"
proof -
  have d: "updateUIFromData example_state 3600600 = Some (the (updateUIFromData example_state 3600600))"
    by (rule updateUIFromData_defined [of _ 50]) (simp add: example_simps)
  have v: "speedValue_of (pkt_rpm (latestData example_state)) = 100"
    by (simp add: example_simps)
  show ?thesis
    using speedValue_rescale
      [of 8000 100 200 example_state 3600600 "the (updateUIFromData example_state 3600600)"] d v
    by simp
qed

section \<open>The mode roller\<close>

text \<open>
  C7: the roller index depends on the speed value only, in bands that include their lower
  end: below 60 it is 0, from 60 and below 80 it is 1, from 80 and below 140 it is 2, from
  140 on it is 3; so each of 60, 80 and 140 selects the higher band. \<open>updateUIFromData\<close>
  sets the roller to the index of the speed value it computed from the packet.
\<close>

theorem roller_mode_bands:
  "(sv < 60 \<longrightarrow> roller_mode_of sv = 0)
   \<and> (60 \<le> sv \<and> sv < 80 \<longrightarrow> roller_mode_of sv = 1)
   \<and> (80 \<le> sv \<and> sv < 140 \<longrightarrow> roller_mode_of sv = 2)
   \<and> (140 \<le> sv \<longrightarrow> roller_mode_of sv = 3)
   \<and> roller_mode_of 60 = 1 \<and> roller_mode_of 80 = 2 \<and> roller_mode_of 140 = 3
   \<and> (updateUIFromData st now = Some st' \<longrightarrow>
        ui_roller_mode st' = roller_mode_of (speedValue_of (pkt_rpm (latestData st))))"
  by (auto simp: roller_mode_of_def updateUIFromData_eq split: option.splits)

theorem roller_mode_bands_witness:
  "(59 :: int) < 60 \<and> roller_mode_of 59 = 0
   \<and> (60 :: int) \<le> 79 \<and> (79 :: int) < 80 \<and> roller_mode_of 79 = 1
   \<and> (80 :: int) \<le> 139 \<and> (139 :: int) < 140 \<and> roller_mode_of 139 = 2
   \<and> (140 :: int) \<le> 250 \<and> roller_mode_of 250 = 3
   \<and> updateUIFromData example_state 3600600 = Some (the (updateUIFromData example_state 3600600))
   \<and> ui_roller_mode (the (updateUIFromData example_state 3600600)) = 2"
proof -
  have d: "updateUIFromData example_state 3600600 = Some (the (updateUIFromData example_state 3600600))"
    by (rule updateUIFromData_defined [of _ 50]) (simp add: example_simps)
  have m: "roller_mode_of (speedValue_of (pkt_rpm (latestData example_state))) = 2"
    by (simp add: example_simps roller_mode_of_def)
  show ?thesis
    using roller_mode_bands [of 59 example_state 3600600 "the (updateUIFromData example_state 3600600)"]
      roller_mode_bands [of 79 example_state 3600600 "the (updateUIFromData example_state 3600600)"]
      roller_mode_bands [of 139] roller_mode_bands [of 250] d m
    by simp
qed

section \<open>The receive callback\<close>

text \<open>
  C8: when \<open>len\<close> is the size of the packet, 24, the callback copies the first 24 bytes of
  the buffer into \<open>latestData\<close> (the whole buffer, when it has that many bytes), sets
  \<open>hasNewData\<close> and stores the time in \<open>lastPacketMillis\<close>, and changes nothing else; for
  every other \<open>len\<close>, negative ones included, it leaves the whole state as it was.
\<close>

theorem onDataRecv_length_gate:
  "int sizeof_DashPacket = 24
   \<and> (sint len = 24 \<longrightarrow>
      onDataRecv st incomingData len now =
        st\<lparr> latestData := take 24 incomingData, hasNewData := True, lastPacketMillis := now \<rparr>
      \<and> (length incomingData = 24 \<longrightarrow>
           latestData (onDataRecv st incomingData len now) = incomingData))
   \<and> (sint len \<noteq> 24 \<longrightarrow> onDataRecv st incomingData len now = st)"
  by (simp add: onDataRecv_frame onDataRecv_other sizeof_DashPacket_def)

theorem onDataRecv_length_gate_witness:
  "sint (24 :: i32) = 24
   \<and> length (packet_bytes 3200 0x41400000) = 24
   \<and> latestData (onDataRecv boot_state (packet_bytes 3200 0x41400000) 24 777)
       = packet_bytes 3200 0x41400000
   \<and> hasNewData (onDataRecv boot_state (packet_bytes 3200 0x41400000) 24 777)
   \<and> lastPacketMillis (onDataRecv boot_state (packet_bytes 3200 0x41400000) 24 777) = 777
   \<and> sint (23 :: i32) \<noteq> 24 \<and> onDataRecv boot_state [1, 2, 3] 23 777 = boot_state
   \<and> sint (- 1 :: i32) \<noteq> 24 \<and> onDataRecv boot_state [] (- 1) 777 = boot_state"
  using onDataRecv_length_gate [of 24 boot_state "packet_bytes 3200 0x41400000" 777]
    onDataRecv_length_gate [of 23 boot_state "[1, 2, 3]" 777]
    onDataRecv_length_gate [of "- 1" boot_state "[]" 777]
  by (simp add: length_packet_bytes)

section \<open>The connection indicator when nothing arrives\<close>

lemma idle_step: "idle st \<Longrightarrow> no_frame ev \<Longrightarrow> \<exists>st'. step st ev = Some st' \<and> idle st'"
  by (cases ev)
     (auto simp: idle_def onDataRecv_other loop_idle update_link_indicator_def Let_def
           split: option.split)

lemma idle_run:
  "idle st \<Longrightarrow> list_all no_frame evs \<Longrightarrow> \<exists>st'. run st evs = Some st' \<and> idle st'"
proof (induction evs arbitrary: st)
  case Nil
  then show ?case by simp
next
  case (Cons ev evs)
  from Cons.prems obtain st1 where s: "step st ev = Some st1" and i: "idle st1"
    using idle_step [of st ev] by auto
  from Cons.IH [OF i] Cons.prems obtain st' where "run st1 evs = Some st'" "idle st'" by auto
  with s show ?case by simp
qed

lemma idle_setup: "idle (setup_fw boot_state t0)"
  by (simp add: idle_def setup_fw_def create_link_indicator_def boot_state_def)

lemma idle_tick:
  "idle st \<Longrightarrow>
   map_option ui_link_dot (run st [Tick now_ui now_link]) =
     Some (Some (if now_link < 1000 then 0x00FF00 else 0xFF0000))"
  by (auto simp: idle_def loop_idle update_link_indicator_def Let_def split: option.split)

text \<open>
  In a run after \<open>setup()\<close> in which no delivery has the length of a frame, every pass of
  the loop completes and sets the indicator from the clock alone: red (\<open>0xFF0000\<close>) when
  \<open>millis()\<close> reads 1000 or more, green (\<open>0x00FF00\<close>) when it reads less. (Every pass of a
  run is the last event of a prefix of the run, which is the form of the statement.)
\<close>

lemma indicator_follows_clock_without_frames:
  "list_all no_frame evs \<Longrightarrow>
   map_option ui_link_dot (run (setup_fw boot_state t0) (evs @ [Tick now_ui now_link])) =
     Some (Some (if now_link < 1000 then 0x00FF00 else 0xFF0000))"
proof -
  assume q: "list_all no_frame evs"
  from idle_run [OF idle_setup q] obtain st' where
    r: "run (setup_fw boot_state t0) evs = Some st'" and i: "idle st'" by blast
  show ?thesis using idle_tick [OF i] by (simp add: run_append r)
qed

text \<open>
  C2: in a run in which no frame ever arrives, every pass of the loop should set the
  indicator red. The code does not do so in the first second: \<open>lastPacketMillis\<close> starts
  at 0, which \<open>update_link_indicator\<close> cannot tell from an arrival at time 0, so a pass
  that reads \<open>millis()\<close> below 1000 finds a difference below 1000 and sets the indicator
  green (\<open>0x00FF00\<close>). Here \<open>setup()\<close> is done at 600 ms and the first pass of the loop
  reads 700 ms, with no delivery at all.
\<close>

theorem link_up_without_any_frame:
  "map_option ui_link_dot (run (setup_fw boot_state 600) [Tick 700 700]) = Some (Some 0x00FF00)"
  by code_simp

section \<open>The trip distance\<close>

text \<open>
  C1: the first call of \<open>updateUIFromData\<close> after start-up should leave
  \<open>totalDistanceKm\<close> as it is. It does not: \<open>setup()\<close> has stored \<open>millis()\<close> in
  \<open>lastTripMillis\<close>, so the test \<open>lastTripMillis == 0\<close> fails in the first call and the
  time since \<open>setup()\<close> is integrated. With \<open>setup()\<close> at 600 ms and the first frame
  (\<open>rpm = 3200\<close>, speed value 100) handled at 3600600 ms, the distance goes from 0 to 100.
\<close>

theorem first_call_after_setup_adds_distance:
  "totalDistanceKm (setup_fw boot_state 600) = Fin 0
   \<and> map_option totalDistanceKm
        (run (setup_fw boot_state 600)
           [Recv (packet_bytes 3200 0x41400000) 24 3600000, Tick 3600600 3600600])
      = Some (Fin 100)"
proof -
  have "map_option totalDistanceKm (loop example_state 3600600 3600600) = Some (Fin 100)"
    by (simp add: loop_new updateUIFromData_eq trip_step_total example_simps)
  moreover have "totalDistanceKm (setup_fw boot_state 600) = Fin 0"
    by (simp add: setup_fw_def create_link_indicator_def boot_state_def)
  ultimately show ?thesis
    unfolding run_recv_tick example_state_def frame_state_def by simp
qed

section \<open>Facts about rounding to binary32\<close>

lemma pow2_eq: "pow2 k = power_int 2 k"
  unfolding pow2_def power_int_def by (simp add: inverse_eq_divide power_one_over)

lemma pow2_pos [simp]: "0 < pow2 k"
  by (simp add: pow2_eq)

lemma pow2_add: "pow2 (a + b) = pow2 a * pow2 b"
  unfolding pow2_eq by (rule power_int_add) simp

lemma pow2_less_iff: "pow2 a < pow2 b \<longleftrightarrow> a < b"
proof
  assume "pow2 a < pow2 b"
  show "a < b"
  proof (rule ccontr)
    assume "\<not> a < b"
    then have "b \<le> a" by simp
    then have "pow2 b \<le> pow2 a" unfolding pow2_eq by (rule power_int_increasing) simp
    with \<open>pow2 a < pow2 b\<close> show False by simp
  qed
next
  assume "a < b"
  then show "pow2 a < pow2 b" unfolding pow2_eq by (rule power_int_strict_increasing) simp
qed

lemma pow2_le_iff: "pow2 a \<le> pow2 b \<longleftrightarrow> a \<le> b"
  using pow2_less_iff [of b a] by (simp add: not_less [symmetric])

lemma pow2_nat: "0 \<le> k \<Longrightarrow> pow2 k = of_int (2 ^ nat k)"
  by (simp add: pow2_def)

lemma bitlen_pos: "0 < n \<Longrightarrow> 1 \<le> bitlen n"
  using bitlen_eq_zero_iff [of n] bitlen_nonneg [of n] by linarith

lemma flog2_lower: assumes "0 < x" shows "pow2 (flog2 x) \<le> x"
proof (cases "1 \<le> x")
  case True
  let ?n = "\<lfloor>x\<rfloor>"
  from True have n: "0 < ?n" by simp
  from bitlen_bounds [OF n] have "2 ^ nat (bitlen ?n - 1) \<le> ?n" by simp
  then have "(of_int (2 ^ nat (bitlen ?n - 1)) :: rat) \<le> of_int ?n" by (simp only: of_int_le_iff)
  also have "\<dots> \<le> x" by simp
  finally show ?thesis using True bitlen_pos [OF n] by (simp add: flog2_def pow2_nat)
next
  case False
  let ?m = "\<lceil>1 / x\<rceil> - 1"
  let ?b = "bitlen ?m"
  from False assms have "1 < 1 / x" by simp
  then have m: "0 < ?m" by (simp add: less_ceiling_iff)
  from bitlen_bounds [OF m] have "?m < 2 ^ nat ?b" by simp
  then have "\<lceil>1 / x\<rceil> \<le> 2 ^ nat ?b" by simp
  then have "1 / x \<le> of_int (2 ^ nat ?b)" by (simp only: ceiling_le_iff)
  then have "1 / x \<le> 2 ^ nat ?b" by simp
  with assms have "1 / 2 ^ nat ?b \<le> x" by (simp add: field_simps)
  moreover have "pow2 (- ?b) = 1 / 2 ^ nat ?b"
    using bitlen_pos [OF m] by (simp add: pow2_def)
  ultimately show ?thesis using False by (simp add: flog2_def)
qed

lemma flog2_upper: assumes "0 < x" shows "x < pow2 (flog2 x + 1)"
proof (cases "1 \<le> x")
  case True
  let ?n = "\<lfloor>x\<rfloor>"
  from True have n: "0 < ?n" by simp
  from bitlen_bounds [OF n] have "?n + 1 \<le> 2 ^ nat (bitlen ?n)" by simp
  then have "(of_int (?n + 1) :: rat) \<le> of_int (2 ^ nat (bitlen ?n))" by (simp only: of_int_le_iff)
  moreover have "x < of_int (?n + 1)" by linarith
  ultimately have "x < of_int (2 ^ nat (bitlen ?n))" by simp
  then show ?thesis using True bitlen_pos [OF n] by (simp add: flog2_def pow2_nat)
next
  case False
  let ?m = "\<lceil>1 / x\<rceil> - 1"
  let ?b = "bitlen ?m"
  from False assms have "1 < 1 / x" by simp
  then have m: "0 < ?m" by (simp add: less_ceiling_iff)
  from bitlen_bounds [OF m] have "2 ^ nat (?b - 1) \<le> ?m" by simp
  then have "(of_int (2 ^ nat (?b - 1)) :: rat) \<le> of_int ?m" by (simp only: of_int_le_iff)
  moreover have "of_int ?m < 1 / x" by linarith
  ultimately have "2 ^ nat (?b - 1) < 1 / x" by simp
  with assms have "x < 1 / 2 ^ nat (?b - 1)" by (simp add: field_simps)
  moreover have "pow2 (1 - ?b) = 1 / 2 ^ nat (?b - 1)"
    using bitlen_pos [OF m] by (auto simp: pow2_def)
  ultimately show ?thesis using False by (simp add: flog2_def)
qed

lemma round_half_even_err: "\<bar>of_int (round_half_even t) - t\<bar> \<le> 1 / 2"
proof -
  have "of_int \<lfloor>t\<rfloor> \<le> t" "t < of_int \<lfloor>t\<rfloor> + 1" by linarith+
  then show ?thesis by (auto simp: round_half_even_def Let_def)
qed

lemma round_half_even_nonneg: "0 \<le> t \<Longrightarrow> 0 \<le> round_half_even t"
  by (auto simp: round_half_even_def Let_def)


lemma pow2_split: "pow2 e = pow2 (e - 23) * 2 ^ 23"
proof -
  have "pow2 e = pow2 ((e - 23) + 23)" by simp
  also have "\<dots> = pow2 (e - 23) * pow2 23" by (rule pow2_add)
  also have "pow2 23 = 2 ^ 23" by (simp add: pow2_def)
  finally show ?thesis .
qed

lemma round_scaled_err:
  assumes "0 < u"
  shows "\<bar>of_int (round_half_even (x / u)) * u - x\<bar> \<le> u / 2"
proof -
  have "of_int (round_half_even (x / u)) * u - x = (of_int (round_half_even (x / u)) - x / u) * u"
    using assms by (simp add: field_simps)
  then have "\<bar>of_int (round_half_even (x / u)) * u - x\<bar> = \<bar>of_int (round_half_even (x / u)) - x / u\<bar> * u"
    using assms by (simp add: abs_mult)
  also have "\<dots> \<le> (1 / 2) * u"
    using round_half_even_err [of "x / u"] assms by (intro mult_right_mono) simp_all
  finally show ?thesis by simp
qed

lemma round_f32_normal:
  assumes lo: "pow2 (- 126) \<le> x" and hi: "x < pow2 127"
  shows "\<exists>y. round_f32 x = Fin y \<and> \<bar>y - x\<bar> \<le> x / 2 ^ 24"
proof -
  have x: "0 < x" using lo pow2_pos [of "- 126"] by linarith
  define e where "e = flog2 x"
  have le: "pow2 e \<le> x" and ue: "x < pow2 (e + 1)"
    using flog2_lower [OF x] flog2_upper [OF x] by (simp_all add: e_def)
  from lo ue have "pow2 (- 126) < pow2 (e + 1)" by simp
  then have e: "- 126 \<le> e" by (simp add: pow2_less_iff)
  define u where "u = pow2 (e - 23)"
  have u: "0 < u" by (simp add: u_def)
  define r where "r = of_int (round_half_even (x / u)) * u"
  have err: "\<bar>r - x\<bar> \<le> u / 2" unfolding r_def by (rule round_scaled_err [OF u])
  have "u * 2 ^ 23 = pow2 e" unfolding u_def by (rule pow2_split [symmetric])
  then have "u / 2 = pow2 e / 2 ^ 24" by (simp add: field_simps)
  also have "\<dots> \<le> x / 2 ^ 24" using le by (simp add: divide_right_mono)
  finally have half: "u / 2 \<le> x / 2 ^ 24" .
  with err have rx: "\<bar>r - x\<bar> \<le> x / 2 ^ 24" by linarith
  have "x / 2 ^ 24 < x" using x by simp
  with rx have pos: "0 < r" and "r < 2 * x" by linarith+
  moreover have "2 * pow2 127 = pow2 128"
    using pow2_add [of 127 1] by (simp add: pow2_def)
  ultimately have big: "r < pow2 128" using hi by linarith
  have "round_f32 x = Fin r"
    using x e pos big by (simp add: round_f32_def Let_def max_def e_def u_def r_def)
  with rx show ?thesis by blast
qed

lemma round_f32_tiny:
  assumes x: "0 < x" and hi: "x < pow2 (- 126)"
  shows "\<exists>y. round_f32 x = Fin y \<and> 0 \<le> y \<and> \<bar>y - x\<bar> \<le> pow2 (- 150)"
proof -
  define e where "e = flog2 x"
  have "pow2 e \<le> x" using flog2_lower [OF x] by (simp add: e_def)
  with hi have "pow2 e < pow2 (- 126)" by simp
  then have e: "e < - 126" by (simp add: pow2_less_iff)
  define u where "u = pow2 (- 149)"
  have u: "0 < u" by (simp add: u_def)
  define r where "r = of_int (round_half_even (x / u)) * u"
  have err: "\<bar>r - x\<bar> \<le> u / 2" unfolding r_def by (rule round_scaled_err [OF u])
  have "pow2 (- 149) = pow2 (- 150) * 2" using pow2_add [of "- 150" 1] by (simp add: pow2_def)
  then have half: "u / 2 = pow2 (- 150)" by (simp add: u_def)
  have "0 \<le> x / u" using x u by simp
  then have r0: "0 \<le> r" unfolding r_def using u round_half_even_nonneg [of "x / u"] by simp
  have "pow2 (- 126) \<le> pow2 0" "pow2 (- 150) \<le> pow2 0" by (simp_all add: pow2_le_iff)
  then have "pow2 (- 126) \<le> 1" "pow2 (- 150) \<le> 1" by (simp_all add: pow2_def)
  with err half hi have "r < 2" by linarith
  moreover have "(2 :: rat) \<le> pow2 128" using pow2_le_iff [of 1 128] by (simp add: pow2_def)
  ultimately have big: "r < pow2 128" by linarith
  have "round_f32 x = Fin r"
    using x e r0 big by (auto simp: round_f32_def Let_def max_def e_def u_def r_def)
  with err half r0 show ?thesis by auto
qed

lemma round_f32_bounded:
  assumes "0 \<le> x" "x \<le> c" "1 \<le> c" "c \<le> 2 ^ 100"
  shows "\<exists>y. round_f32 x = Fin y \<and> 0 \<le> y \<and> y \<le> 2 * c"
proof -
  consider "x = 0" | "0 < x" "x < pow2 (- 126)" | "pow2 (- 126) \<le> x"
    using assms(1) by linarith
  then show ?thesis
  proof cases
    case 1
    then show ?thesis using assms by (simp add: round_f32_def)
  next
    case 2
    from round_f32_tiny [OF 2] obtain y where
      y: "round_f32 x = Fin y" "0 \<le> y" "\<bar>y - x\<bar> \<le> pow2 (- 150)" by blast
    have "pow2 (- 150) \<le> pow2 0" by (simp add: pow2_le_iff)
    then have "pow2 (- 150) \<le> 1" by (simp add: pow2_def)
    with y assms have "y \<le> 2 * c" by linarith
    with y show ?thesis by blast
  next
    case 3
    have "(2 :: rat) ^ 100 < pow2 127" using pow2_less_iff [of 100 127] by (simp add: pow2_def)
    with assms have "x < pow2 127" by linarith
    from round_f32_normal [OF 3 this] obtain y where
      y: "round_f32 x = Fin y" "\<bar>y - x\<bar> \<le> x / 2 ^ 24" by blast
    have x: "0 < x" using 3 pow2_pos [of "- 126"] by linarith
    then have "x / 2 ^ 24 \<le> x" by simp
    with y x assms have "0 \<le> y" "y \<le> 2 * c" by linarith+
    with y show ?thesis by blast
  qed
qed

lemma round_f32_0 [simp]: "round_f32 0 = Fin 0"
  by (simp add: round_f32_def)

lemma fadd_Fin: "fadd (Fin a) (Fin b) = round_f32 (a + b)"
  by (simp add: fadd_def is_inf_def)

lemma fsub_Fin: "b \<noteq> 0 \<Longrightarrow> fsub (Fin a) (Fin b) = round_f32 (a - b)"
  by (simp add: fsub_def fadd_Fin)

lemma fdiv_Fin: "0 \<le> a \<Longrightarrow> 0 < b \<Longrightarrow> fdiv (Fin a) (Fin b) = round_f32 (a / b)"
  by (auto simp: fdiv_def is_inf_def is_zero_def signed_zero_def)

lemma fmul_Fin: "0 \<le> a \<Longrightarrow> 0 \<le> b \<Longrightarrow> fmul (Fin a) (Fin b) = round_f32 (a * b)"
  by (auto simp: fmul_def is_inf_def is_zero_def signed_zero_def)

lemma constrain_window:
  "v \<noteq> NaN \<Longrightarrow> \<exists>b. constrain_f32 v (Fin 10) (Fin 14) = Fin b \<and> 10 \<le> b \<and> b \<le> 14"
  by (cases v) (auto simp: constrain_f32_def)

lemma constrain_below: "flt v (Fin 10) \<Longrightarrow> constrain_f32 v (Fin 10) (Fin 14) = Fin 10"
  by (simp add: constrain_f32_def)

lemma constrain_above: "flt (Fin 14) v \<Longrightarrow> constrain_f32 v (Fin 10) (Fin 14) = Fin 14"
  by (cases v) (auto simp: constrain_f32_def)

lemma percent_chain:
  assumes "10 \<le> b" "b \<le> 14"
  shows "\<exists>r. fmul (fdiv (fsub (Fin b) (Fin 10)) (Fin 4)) (Fin 100) = Fin r \<and> 0 \<le> r \<and> r \<le> 800"
proof -
  from round_f32_bounded [of "b - 10" 4] assms obtain y1 where
    y1: "round_f32 (b - 10) = Fin y1" "0 \<le> y1" "y1 \<le> 8" by auto
  from round_f32_bounded [of "y1 / 4" 2] y1 obtain y2 where
    y2: "round_f32 (y1 / 4) = Fin y2" "0 \<le> y2" "y2 \<le> 4" by auto
  from round_f32_bounded [of "y2 * 100" 400] y2 obtain r where
    r: "round_f32 (y2 * 100) = Fin r" "0 \<le> r" "r \<le> 800" by auto
  have "fmul (fdiv (fsub (Fin b) (Fin 10)) (Fin 4)) (Fin 100) = Fin r"
    using y1 y2 r by (simp add: fsub_Fin fdiv_Fin fmul_Fin)
  with r show ?thesis by blast
qed

lemma f32_to_int_small: "0 \<le> r \<Longrightarrow> r \<le> 800 \<Longrightarrow> f32_to_int (Fin r) = Some (truncate_rat r)"
proof -
  assume r: "0 \<le> r" "r \<le> 800"
  then have "0 \<le> \<lfloor>r\<rfloor>" "\<lfloor>r\<rfloor> \<le> 800" by (simp_all add: floor_le_iff)
  with r show ?thesis by (simp add: truncate_rat_def Let_def)
qed

lemma battPercent_of_eq:
  assumes "v \<noteq> NaN"
  shows "\<exists>r. fmul (fdiv (fsub (constrain_f32 v (Fin 10) (Fin 14)) (Fin 10)) (Fin 4)) (Fin 100) = Fin r
             \<and> battPercent_of v = Some (constrain_int (truncate_rat r) 0 100)"
proof -
  from constrain_window [OF assms] obtain b where
    b: "constrain_f32 v (Fin 10) (Fin 14) = Fin b" "10 \<le> b" "b \<le> 14" by blast
  from percent_chain [OF b(2,3)] obtain r where
    r: "fmul (fdiv (fsub (Fin b) (Fin 10)) (Fin 4)) (Fin 100) = Fin r" "0 \<le> r" "r \<le> 800" by blast
  have "battPercent_of v = Some (constrain_int (truncate_rat r) 0 100)"
    using b r f32_to_int_small [OF r(2,3)] by (simp add: battPercent_of_def)
  with b r show ?thesis by simp
qed

lemma battPercent_of_range: "battPercent_of v = Some p \<Longrightarrow> 0 \<le> p \<and> p \<le> 100"
  by (auto simp: battPercent_of_def constrain_int_def Let_def split: option.splits if_splits)

lemma battPercent_of_clamped:
  "battPercent_of v = battPercent_of (constrain_f32 v (Fin 10) (Fin 14))"
proof (cases "v = NaN")
  case True
  then show ?thesis by (simp add: constrain_f32_def)
next
  case False
  from constrain_window [OF False] obtain b where
    b: "constrain_f32 v (Fin 10) (Fin 14) = Fin b" "10 \<le> b" "b \<le> 14" by blast
  then have "constrain_f32 (Fin b) (Fin 10) (Fin 14) = Fin b" by (simp add: constrain_f32_def)
  with b show ?thesis by (simp add: battPercent_of_def)
qed

lemma percent_10: "battPercent_of (Fin 10) = Some 0"
  by code_simp

lemma percent_14: "battPercent_of (Fin 14) = Some 100"
  by code_simp

lemma battPercent_of_below: "flt v (Fin 10) \<Longrightarrow> battPercent_of v = Some 0"
  using battPercent_of_clamped [of v] constrain_below [of v] percent_10 by simp

lemma battPercent_of_above: "flt (Fin 14) v \<Longrightarrow> battPercent_of v = Some 100"
  using battPercent_of_clamped [of v] constrain_above [of v] percent_14 by simp


section \<open>The battery percentage\<close>

text \<open>
  The percentage is computed in \<open>float\<close> arithmetic, and the product is rounded before it
  is truncated. For the \<open>float\<close> nearest to 11.04 the exact product would be just below
  26; the \<open>float\<close> product is 26.
\<close>

lemma percent_rounds_before_truncation:
  "battPercent_of (Fin (11576279 / 1048576)) = Some 26
   \<and> truncate_rat (((11576279 / 1048576 - 10) / 4) * 100) = 25"
  by code_simp

text \<open>
  C5: for every battery voltage the percentage is the voltage clamped to 10..14, minus 10,
  divided by 4, times 100 (in \<open>float\<close> arithmetic), converted to \<open>int\<close> by truncation
  and clamped to 0..100; the product is always a finite number that fits an \<open>int\<close>, so
  the conversion is defined for every voltage that is a number. 10.0 gives 0, 12.0 gives
  50 and 14.0 gives 100; a voltage outside the window is clamped first, so anything below
  10 gives 0 and anything above 14 gives 100. \<open>updateUIFromData\<close> sets the battery bar to
  this percentage.
\<close>

theorem battPercent_rescale:
  "(v \<noteq> NaN \<longrightarrow>
      (\<exists>r. fmul (fdiv (fsub (constrain_f32 v (Fin 10) (Fin 14)) (Fin 10)) (Fin 4)) (Fin 100) = Fin r
           \<and> battPercent_of v = Some (constrain_int (truncate_rat r) 0 100)))
   \<and> battPercent_of (Fin 10) = Some 0
   \<and> battPercent_of (Fin 12) = Some 50
   \<and> battPercent_of (Fin 14) = Some 100
   \<and> battPercent_of v = battPercent_of (constrain_f32 v (Fin 10) (Fin 14))
   \<and> (flt v (Fin 10) \<longrightarrow> battPercent_of v = Some 0)
   \<and> (flt (Fin 14) v \<longrightarrow> battPercent_of v = Some 100)
   \<and> (updateUIFromData st now = Some st' \<longrightarrow>
        battPercent_of (pkt_batt (latestData st)) = Some (ui_bar_battery st'))"
proof -
  note below = battPercent_of_below [of v] and above = battPercent_of_above [of v]
  have ui: "battPercent_of (pkt_batt (latestData st)) = Some (ui_bar_battery st')"
    if "updateUIFromData st now = Some st'"
    using that by (auto simp: updateUIFromData_eq split: option.splits)
  show ?thesis
    using battPercent_of_eq [of v] percent_10 example_percent percent_14
      battPercent_of_clamped [of v] below above ui
    by blast
qed


theorem battPercent_rescale_witness:
  "Fin 12 \<noteq> NaN \<and> battPercent_of (Fin 12) = Some 50
   \<and> flt (Fin 5) (Fin 10) \<and> battPercent_of (Fin 5) = Some 0
   \<and> flt (Fin 14) (Fin 20) \<and> battPercent_of (Fin 20) = Some 100
   \<and> updateUIFromData example_state 3600600 = Some (the (updateUIFromData example_state 3600600))
   \<and> ui_bar_battery (the (updateUIFromData example_state 3600600)) = 50"
proof -
  have d: "updateUIFromData example_state 3600600 = Some (the (updateUIFromData example_state 3600600))"
    by (rule updateUIFromData_defined [of _ 50]) (simp add: example_simps)
  have b: "battPercent_of (pkt_batt (latestData example_state)) = Some 50"
    by (simp add: example_simps)
  from battPercent_rescale [of "Fin 12" example_state 3600600 "the (updateUIFromData example_state 3600600)"] d b
  have 1: "battPercent_of (Fin 12) = Some 50"
    and 2: "ui_bar_battery (the (updateUIFromData example_state 3600600)) = 50"
    by simp_all
  from battPercent_rescale [of "Fin 5"] have 3: "flt (Fin 5) (Fin 10) \<longrightarrow> battPercent_of (Fin 5) = Some 0"
    by blast
  from battPercent_rescale [of "Fin 20"] have 4: "flt (Fin 14) (Fin 20) \<longrightarrow> battPercent_of (Fin 20) = Some 100"
    by blast
  show ?thesis using 1 2 3 4 d by simp
qed


section \<open>Later calls of the trip integrator\<close>










section \<open>Decimal output\<close>

lemma show_dec_digit: "n < 10 \<Longrightarrow> show_dec n = [digit_char n]"
  by (subst show_dec.simps) simp

lemma show_dec_step: "10 \<le> n \<Longrightarrow> show_dec n = show_dec (n div 10) @ [digit_char (n mod 10)]"
  by (subst show_dec.simps) simp

lemma div10_less: "(n :: int) < 10 * m \<Longrightarrow> n div 10 < m"
  by presburger

lemma length_show_dec: "0 \<le> n \<Longrightarrow> n < 10 ^ k \<Longrightarrow> 0 < k \<Longrightarrow> length (show_dec n) \<le> k"
proof (induction k arbitrary: n)
  case 0
  then show ?case by simp
next
  case (Suc k)
  show ?case
  proof (cases "n < 10")
    case True
    then show ?thesis by (simp add: show_dec_digit)
  next
    case False
    then have ge: "10 \<le> n" by simp
    from Suc.prems have "n div 10 < 10 ^ k" by (intro div10_less) simp
    moreover from ge have "0 < n div 10" by simp
    ultimately have k: "0 < k" by (cases k) auto
    have "length (show_dec (n div 10)) \<le> k"
      using Suc.IH [of "n div 10"] \<open>n div 10 < 10 ^ k\<close> \<open>0 < n div 10\<close> k by simp
    then show ?thesis using ge by (simp add: show_dec_step)
  qed
qed

lemma speedValue_of_range: "0 \<le> speedValue_of rpm \<and> speedValue_of rpm \<le> 250"
  by (simp add: speedValue_of_clamp)

lemma fmt_d_short: "0 \<le> n \<Longrightarrow> n < 1000 \<Longrightarrow> length (fmt_d n) \<le> 3"
  using length_show_dec [of n 3] by (simp add: fmt_d_def)

lemma fmt_1f_Fin:
  "fmt_1f (Fin q) =
     (if q < 0 then ''-'' else '''') @ show_dec (round_half_even (\<bar>q\<bar> * 10) div 10) @ ''.''
       @ [digit_char (round_half_even (\<bar>q\<bar> * 10) mod 10)]"
  by (simp add: fmt_1f.simps Let_def show_dec_digit)

lemma round_half_even_upper: "round_half_even t \<le> \<lfloor>t\<rfloor> + 1"
  by (simp add: round_half_even_def Let_def)

lemma length_fmt_1f:
  assumes "0 \<le> q" "q < 10 ^ k - 1" "0 < k"
  shows "length (fmt_1f (Fin q)) \<le> k + 2"
proof -
  let ?n = "round_half_even (\<bar>q\<bar> * 10)"
  have n0: "0 \<le> ?n" using assms(1) by (intro round_half_even_nonneg) simp
  have "q * 10 < of_int (10 ^ Suc k - 10)" using assms(2) by simp
  then have "\<lfloor>q * 10\<rfloor> < 10 ^ Suc k - 10" by (simp only: floor_less_iff)
  with round_half_even_upper [of "q * 10"] assms(1) have "?n < 10 ^ Suc k" by simp
  then have "?n div 10 < 10 ^ k" by (intro div10_less) simp
  moreover have "0 \<le> ?n div 10" using n0 by simp
  ultimately have "length (show_dec (?n div 10)) \<le> k" using assms(3) by (intro length_show_dec)
  then show ?thesis using assms(1) by (simp add: fmt_1f_Fin)
qed


lemma of_char_digit: "0 \<le> d \<Longrightarrow> d < 10 \<Longrightarrow> (of_char (digit_char d) :: int) = 48 + d"
proof -
  assume "0 \<le> d" "d < 10"
  then have "d = 0 \<or> d = 1 \<or> d = 2 \<or> d = 3 \<or> d = 4 \<or> d = 5 \<or> d = 6 \<or> d = 7 \<or> d = 8 \<or> d = 9"
    by presburger
  then show ?thesis by (elim disjE) (simp_all add: digit_char_def)
qed

lemma digit_char_inj:
  assumes "0 \<le> a" "a < 10" "0 \<le> b" "b < 10" "digit_char a = digit_char b"
  shows "a = b"
proof -
  have "(of_char (digit_char a) :: int) = of_char (digit_char b)" using assms(5) by simp
  then show ?thesis using assms(1-4) by (simp add: of_char_digit)
qed

lemma show_dec_length_pos: "0 < length (show_dec n)"
  by (subst show_dec.simps) simp

lemma show_dec_inj: "0 \<le> a \<Longrightarrow> 0 \<le> b \<Longrightarrow> show_dec a = show_dec b \<Longrightarrow> a = b"
proof (induction a arbitrary: b rule: show_dec.induct)
  case (1 n)
  show ?case
  proof (cases "n < 10")
    case True
    show ?thesis
    proof (cases "b < 10")
      case b: True
      with True 1 show ?thesis by (auto simp: show_dec_digit intro: digit_char_inj)
    next
      case False
      then have "length (show_dec b) = Suc (length (show_dec (b div 10)))"
        by (simp add: show_dec_step)
      with show_dec_length_pos [of "b div 10"] have "length (show_dec b) \<noteq> 1" by simp
      moreover have "length (show_dec n) = 1" using True by (simp add: show_dec_digit)
      ultimately show ?thesis using 1 by simp
    qed
  next
    case False
    show ?thesis
    proof (cases "b < 10")
      case True
      from False have "length (show_dec n) = Suc (length (show_dec (n div 10)))"
        by (simp add: show_dec_step)
      with show_dec_length_pos [of "n div 10"] have "length (show_dec n) \<noteq> 1" by simp
      moreover have "length (show_dec b) = 1" using True by (simp add: show_dec_digit)
      ultimately show ?thesis using 1 by simp
    next
      case b: False
      from False b 1(4) have eq: "show_dec (n div 10) = show_dec (b div 10)"
        and dg: "digit_char (n mod 10) = digit_char (b mod 10)"
        by (simp_all add: show_dec_step)
      from False b 1(2,3) have "n div 10 = b div 10"
        by (intro 1(1) [OF False _ _ eq]) simp_all
      moreover have "n mod 10 = b mod 10" by (rule digit_char_inj [OF _ _ _ _ dg]) simp_all
      ultimately show ?thesis by (metis mult_div_mod_eq)
    qed
  qed
qed

lemma fmt_1f_inj:
  assumes "0 \<le> q1" "0 \<le> q2" "fmt_1f (Fin q1) = fmt_1f (Fin q2)"
  shows "round_half_even (q1 * 10) = round_half_even (q2 * 10)"
proof -
  let ?n1 = "round_half_even (q1 * 10)" and ?n2 = "round_half_even (q2 * 10)"
  have n: "0 \<le> ?n1" "0 \<le> ?n2" using assms(1,2) by (simp_all add: round_half_even_nonneg)
  from assms have "(show_dec (?n1 div 10) @ ''.'') @ [digit_char (?n1 mod 10)]
      = (show_dec (?n2 div 10) @ ''.'') @ [digit_char (?n2 mod 10)]"
    by (simp add: fmt_1f_Fin)
  then have s: "show_dec (?n1 div 10) = show_dec (?n2 div 10)"
    and d: "digit_char (?n1 mod 10) = digit_char (?n2 mod 10)"
    by (simp_all only: append1_eq_conv)
  from n s have "?n1 div 10 = ?n2 div 10" by (intro show_dec_inj) simp_all
  moreover have "?n1 mod 10 = ?n2 mod 10" by (rule digit_char_inj [OF _ _ _ _ d]) simp_all
  ultimately show ?thesis by (metis mult_div_mod_eq)
qed

lemma round_half_even_lower: "\<lfloor>t\<rfloor> \<le> round_half_even t"
  by (simp add: round_half_even_def Let_def)

lemma round_half_even_above: "281 / 2 < t \<Longrightarrow> 141 \<le> round_half_even t"
proof -
  assume t: "281 / 2 < t"
  then have "140 \<le> \<lfloor>t\<rfloor>" by (simp add: le_floor_iff)
  then consider "141 \<le> \<lfloor>t\<rfloor>" | "\<lfloor>t\<rfloor> = 140" by linarith
  then show ?thesis
  proof cases
    case 1
    with round_half_even_lower [of t] show ?thesis by linarith
  next
    case 2
    with t show ?thesis by (simp add: round_half_even_def Let_def)
  qed
qed

lemma round_half_even_below: "t < 199 / 2 \<Longrightarrow> round_half_even t \<le> 99"
proof -
  assume t: "t < 199 / 2"
  then have "\<lfloor>t\<rfloor> \<le> 99" by (simp add: floor_le_iff)
  then consider "\<lfloor>t\<rfloor> \<le> 98" | "\<lfloor>t\<rfloor> = 99" by linarith
  then show ?thesis
  proof cases
    case 1
    with round_half_even_upper [of t] show ?thesis by linarith
  next
    case 2
    with t show ?thesis by (simp add: round_half_even_def Let_def)
  qed
qed

lemma tenths_10: "round_half_even 100 = 100"
  by code_simp

lemma tenths_14: "round_half_even 140 = 140"
  by code_simp

section \<open>The label texts\<close>

lemma ui_lbl_range_eq:
  "map_option ui_lbl_range (updateUIFromData st now) =
     map_option (\<lambda>p. snprintf 10 (fmt_1f (pkt_batt (latestData st)) @ ''V''))
       (battPercent_of (pkt_batt (latestData st)))"
  by (simp add: updateUIFromData_eq split: option.split)

lemma snprintf_short: "length s \<le> 8 \<Longrightarrow> snprintf 10 (s @ ''V'') = s @ ''V''"
  by (simp add: snprintf_def)

lemma big_batt: "pkt_batt (packet_bytes 3200 0x4996B438) = Fin 1234567"
  by code_simp

lemma big_text: "snprintf 10 (fmt_1f (Fin 1234567) @ ''V'') = ''1234567.0''"
  by code_simp

lemma near_batt: "pkt_batt (packet_bytes 3200 0x4160A3D7) = Fin (14722007 / 1048576)"
  by code_simp

lemma near_text: "snprintf 10 (fmt_1f (Fin (14722007 / 1048576)) @ ''V'') = ''14.0V''"
  by code_simp

lemma text_14: "snprintf 10 (fmt_1f (Fin 14) @ ''V'') = ''14.0V''"
  by code_simp

lemma batt_20: "pkt_batt (packet_bytes 3200 0x41A00000) = Fin 20"
  by code_simp

lemma text_20: "snprintf 10 (fmt_1f (Fin 20) @ ''V'') = ''20.0V''"
  by code_simp

lemma text_100: "fmt_d 100 = ''100''"
  by code_simp

lemma text_50: "fmt_d 50 = ''50''"
  by code_simp

lemma text_trip: "fmt_1f (Fin 100) = ''100.0''"
  by code_simp

lemma text_12: "fmt_1f (Fin 12) = ''12.0''"
  by code_simp

lemma text_10: "snprintf 10 (fmt_1f (Fin 10) @ ''V'') = ''10.0V''"
  by code_simp

lemma label_differs_any:
  assumes "0 \<le> q" "10 \<le> b" "b \<le> 14"
    and "round_half_even (q * 10) \<noteq> round_half_even (b * 10)"
  shows "snprintf 10 (fmt_1f (Fin q) @ ''V'') \<noteq> snprintf 10 (fmt_1f (Fin b) @ ''V'')"
proof (cases "length (fmt_1f (Fin q)) \<le> 8")
  case True
  show ?thesis
  proof
    assume eq: "snprintf 10 (fmt_1f (Fin q) @ ''V'') = snprintf 10 (fmt_1f (Fin b) @ ''V'')"
    have "length (fmt_1f (Fin b)) \<le> 8" using length_fmt_1f [of b 6] assms by simp
    with True eq have "fmt_1f (Fin q) = fmt_1f (Fin b)"
      by (simp only: snprintf_short append_same_eq)
    then have "round_half_even (q * 10) = round_half_even (b * 10)"
      using assms by (intro fmt_1f_inj) simp_all
    with assms(4) show False by simp
  qed
next
  case False
  then have "length (snprintf 10 (fmt_1f (Fin q) @ ''V'')) = 9" by (simp add: snprintf_def)
  moreover have "length (fmt_1f (Fin b)) \<le> 4" using length_fmt_1f [of b 2] assms by simp
  then have "length (snprintf 10 (fmt_1f (Fin b) @ ''V'')) \<le> 5" by (simp add: snprintf_def)
  ultimately show ?thesis by auto
qed

lemma minus_label: "q < 0 \<Longrightarrow> hd (snprintf 10 (fmt_1f (Fin q) @ ''V'')) = CHR ''-''"
  by (simp add: fmt_1f.simps Let_def snprintf_def)

lemma label_differs_outside:
  assumes "flt v (Fin (199 / 20)) \<or> flt (Fin (281 / 20)) v"
  shows "snprintf 10 (fmt_1f v @ ''V'')
           \<noteq> snprintf 10 (fmt_1f (constrain_f32 v (Fin 10) (Fin 14)) @ ''V'')"
proof (cases v)
  case (Fin q)
  from assms Fin consider "q < 0" | "0 \<le> q" "q < 199 / 20" | "281 / 20 < q" by fastforce
  then show ?thesis
  proof cases
    case 1
    then have "constrain_f32 (Fin q) (Fin 10) (Fin 14) = Fin 10" by (intro constrain_below) simp
    moreover have "hd ''10.0V'' \<noteq> CHR ''-''" by simp
    ultimately show ?thesis using minus_label [OF 1] Fin by (auto simp: text_10)
  next
    case 2
    then have "q * 10 < 199 / 2" by simp
    from round_half_even_below [OF this] have "round_half_even (q * 10) \<noteq> round_half_even (10 * 10)"
      by (simp add: tenths_10)
    moreover from 2 have "constrain_f32 (Fin q) (Fin 10) (Fin 14) = Fin 10"
      by (intro constrain_below) simp
    ultimately show ?thesis using 2 Fin label_differs_any [of q 10] by simp
  next
    case 3
    then have "281 / 2 < q * 10" by simp
    from round_half_even_above [OF this] have "round_half_even (q * 10) \<noteq> round_half_even (14 * 10)"
      by (simp add: tenths_14)
    moreover from 3 have "constrain_f32 (Fin q) (Fin 10) (Fin 14) = Fin 14"
      by (intro constrain_above) simp
    ultimately show ?thesis using 3 Fin label_differs_any [of q 14] by simp
  qed
next
  case NegZero
  then show ?thesis by (simp add: constrain_f32_def text_10) (simp add: fmt_1f.simps snprintf_def)
next
  case PInf
  then show ?thesis by (simp add: constrain_f32_def text_14) (simp add: fmt_1f.simps snprintf_def)
next
  case NInf
  then show ?thesis by (simp add: constrain_f32_def text_10) (simp add: fmt_1f.simps snprintf_def)
next
  case NaN
  with assms show ?thesis by simp
qed

text \<open>
  C9, as stated: on every pass that handles new data the voltage label is a number with one
  decimal place followed by the volt marker. It fails for a large value: the text is cut to
  the 9 characters that fit \<open>voltText[10]\<close>, and a frame whose \<open>batt\<close> is 1234567.0 (bit
  pattern \<open>0x4996B438\<close>) leaves the label at \<open>1234567.0\<close>, without the \<open>V\<close>.
\<close>

theorem voltage_label_without_unit:
  "map_option ui_lbl_range (updateUIFromData (frame_state 0x4996B438) 3600600) = Some ''1234567.0''"
  by (simp add: ui_lbl_range_eq big_batt big_text battPercent_of_above)

text \<open>
  C9, amended: when \<open>updateUIFromData\<close> completes, the speed label is the speed value
  printed by \<open>%d\<close>; the trip label is the first 19 characters of the distance printed with
  one decimal place and followed by one space (no unit text), which is all of it for a
  distance from 0 to below \<open>10^16 - 1\<close>; the battery label is the percentage printed by
  \<open>%d\<close> and followed by \<open>%\<close>; the voltage label is the first 9 characters of the raw voltage
  printed with one decimal place and followed by \<open>V\<close>, which is all of it for a voltage
  from 0 to below 999999. A finite number is printed by \<open>%.1f\<close> as an optional minus sign,
  the digits of the integer part, a point and one digit.
\<close>

theorem label_formats:
  "updateUIFromData st now = Some st' \<Longrightarrow>
     ui_lbl_speed st' = fmt_d (ui_slider_speed st')
   \<and> ui_lbl_trip_value st' = take 19 (fmt_1f (totalDistanceKm st') @ '' '')
   \<and> ui_lbl_battery_value st' = fmt_d (ui_bar_battery st') @ ''%''
   \<and> ui_lbl_range st' = take 9 (fmt_1f (pkt_batt (latestData st)) @ ''V'')
   \<and> (\<forall>q. totalDistanceKm st' = Fin q \<and> 0 \<le> q \<and> q < 10 ^ 16 - 1 \<longrightarrow>
          ui_lbl_trip_value st' = fmt_1f (Fin q) @ '' '')
   \<and> (\<forall>q. pkt_batt (latestData st) = Fin q \<and> 0 \<le> q \<and> q < 999999 \<longrightarrow>
          ui_lbl_range st' = fmt_1f (Fin q) @ ''V'')
   \<and> (\<forall>q. fmt_1f (Fin q) =
          (if q < 0 then ''-'' else '''') @ show_dec (round_half_even (\<bar>q\<bar> * 10) div 10) @ ''.''
            @ [digit_char (round_half_even (\<bar>q\<bar> * 10) mod 10)])"
proof -
  assume u: "updateUIFromData st now = Some st'"
  then obtain p where p: "battPercent_of (pkt_batt (latestData st)) = Some p"
    by (auto simp: updateUIFromData_eq split: option.splits)
  let ?sv = "speedValue_of (pkt_rpm (latestData st))"
  from u p have f: "ui_slider_speed st' = ?sv" "ui_lbl_speed st' = snprintf 10 (fmt_d ?sv)"
    "ui_lbl_trip_value st' = snprintf 20 (fmt_1f (totalDistanceKm st') @ '' '')"
    "ui_bar_battery st' = p" "ui_lbl_battery_value st' = snprintf 10 (fmt_d p @ ''%'')"
    "ui_lbl_range st' = snprintf 10 (fmt_1f (pkt_batt (latestData st)) @ ''V'')"
    by (auto simp: updateUIFromData_eq)
  have "length (fmt_d ?sv) \<le> 3"
    using speedValue_of_range [of "pkt_rpm (latestData st)"] by (intro fmt_d_short) simp_all
  then have 1: "ui_lbl_speed st' = fmt_d (ui_slider_speed st')" by (simp add: f snprintf_def)
  have "length (fmt_d p) \<le> 3"
    using battPercent_of_range [OF p] by (intro fmt_d_short) simp_all
  then have 2: "ui_lbl_battery_value st' = fmt_d (ui_bar_battery st') @ ''%''"
    by (simp add: f snprintf_def)
  have 3: "ui_lbl_trip_value st' = fmt_1f (Fin q) @ '' ''"
    if "totalDistanceKm st' = Fin q" "0 \<le> q" "q < 10 ^ 16 - 1" for q
    using length_fmt_1f [of q 16] that by (simp add: f snprintf_def)
  have 4: "ui_lbl_range st' = fmt_1f (Fin q) @ ''V''"
    if "pkt_batt (latestData st) = Fin q" "0 \<le> q" "q < 999999" for q
    using length_fmt_1f [of q 6] that by (simp add: f snprintf_def)
  show ?thesis using 1 2 3 4 fmt_1f_Fin by (simp add: f snprintf_def)
qed

theorem label_formats_witness:
  "updateUIFromData example_state 3600600 = Some (the (updateUIFromData example_state 3600600))
   \<and> ui_lbl_speed (the (updateUIFromData example_state 3600600)) = ''100''
   \<and> ui_lbl_trip_value (the (updateUIFromData example_state 3600600)) = ''100.0 ''
   \<and> ui_lbl_battery_value (the (updateUIFromData example_state 3600600)) = ''50%''
   \<and> ui_lbl_range (the (updateUIFromData example_state 3600600)) = ''12.0V''"
proof -
  let ?r = "the (updateUIFromData example_state 3600600)"
  have d: "updateUIFromData example_state 3600600 = Some ?r"
    by (rule updateUIFromData_defined [of _ 50]) (simp add: example_simps)
  have v: "ui_slider_speed ?r = 100" "ui_bar_battery ?r = 50" "totalDistanceKm ?r = Fin 100"
    "pkt_batt (latestData example_state) = Fin 12"
    by (simp_all add: updateUIFromData_eq trip_step_total example_simps)
  from label_formats [OF d] have "ui_lbl_speed ?r = fmt_d (ui_slider_speed ?r)"
    "ui_lbl_trip_value ?r = take 19 (fmt_1f (totalDistanceKm ?r) @ '' '')"
    "ui_lbl_battery_value ?r = fmt_d (ui_bar_battery ?r) @ ''%''"
    "ui_lbl_range ?r = take 9 (fmt_1f (pkt_batt (latestData example_state)) @ ''V'')"
    by blast+
  then show ?thesis using d by (simp add: v text_100 text_50 text_trip text_12)
qed

section \<open>The voltage label and the clamped voltage\<close>

text \<open>
  C10, as stated: for every frame whose voltage is outside 10..14 the text of the voltage
  label differs from the clamped value. It fails just outside the window: a \<open>batt\<close> of
  14.04 (bit pattern \<open>0x4160A3D7\<close>, the \<open>float\<close> 14722007/1048576) is above 14, and the
  label reads \<open>14.0V\<close>, which is also how the clamped value 14.0 prints.
\<close>

theorem voltage_label_equals_clamped_rendering:
  "flt (Fin 14) (pkt_batt (latestData (frame_state 0x4160A3D7)))
   \<and> map_option ui_lbl_range (updateUIFromData (frame_state 0x4160A3D7) 3600600) = Some ''14.0V''
   \<and> snprintf 10
        (fmt_1f (constrain_f32 (pkt_batt (latestData (frame_state 0x4160A3D7))) (Fin 10) (Fin 14))
           @ ''V'') = ''14.0V''"
  by (simp add: ui_lbl_range_eq near_batt near_text text_14 battPercent_of_above constrain_above)

text \<open>
  C10, amended: when \<open>updateUIFromData\<close> completes, the voltage label is the text of the
  raw voltage of the packet (\<open>%.1fV\<close>, cut to 9 characters), while the battery bar and the
  range slider are computed from the voltage clamped to 10..14. For every raw voltage below
  9.95 or above 14.05, negative values, negative zero and the infinities included, the label
  differs from the text the clamped voltage would give; a raw voltage of 20.0 gives the
  label \<open>20.0V\<close> and the percentage 100.
\<close>

theorem voltage_label_shows_raw_value:
  "updateUIFromData st now = Some st' \<Longrightarrow>
     ui_lbl_range st' = snprintf 10 (fmt_1f (pkt_batt (latestData st)) @ ''V'')
   \<and> battPercent_of (constrain_f32 (pkt_batt (latestData st)) (Fin 10) (Fin 14))
       = Some (ui_bar_battery st')
   \<and> ui_slider_range st' = map_long (ui_bar_battery st') 0 100 0 70
   \<and> (flt (pkt_batt (latestData st)) (Fin (199 / 20)) \<or> flt (Fin (281 / 20)) (pkt_batt (latestData st)) \<longrightarrow>
          ui_lbl_range st'
            \<noteq> snprintf 10 (fmt_1f (constrain_f32 (pkt_batt (latestData st)) (Fin 10) (Fin 14)) @ ''V''))
   \<and> (pkt_batt (latestData st) = Fin 20 \<longrightarrow> ui_lbl_range st' = ''20.0V'' \<and> ui_bar_battery st' = 100)"
proof -
  assume u: "updateUIFromData st now = Some st'"
  then obtain p where p: "battPercent_of (pkt_batt (latestData st)) = Some p"
    by (auto simp: updateUIFromData_eq split: option.splits)
  from u p have f: "ui_bar_battery st' = p" "ui_slider_range st' = map_long p 0 100 0 70"
    "ui_lbl_range st' = snprintf 10 (fmt_1f (pkt_batt (latestData st)) @ ''V'')"
    by (auto simp: updateUIFromData_eq)
  have c: "battPercent_of (constrain_f32 (pkt_batt (latestData st)) (Fin 10) (Fin 14)) = Some p"
    using battPercent_of_clamped [of "pkt_batt (latestData st)"] p by simp
  have ex: "ui_lbl_range st' = ''20.0V'' \<and> ui_bar_battery st' = 100"
    if "pkt_batt (latestData st) = Fin 20"
    using that p f by (simp add: text_20 battPercent_of_above)
  show ?thesis using f c ex label_differs_outside [of "pkt_batt (latestData st)"] by auto
qed

theorem voltage_label_shows_raw_value_witness:
  "updateUIFromData (frame_state 0x41A00000) 3600600
     = Some (the (updateUIFromData (frame_state 0x41A00000) 3600600))
   \<and> pkt_batt (latestData (frame_state 0x41A00000)) = Fin 20
   \<and> flt (Fin (281 / 20)) (Fin 20)
   \<and> ui_lbl_range (the (updateUIFromData (frame_state 0x41A00000) 3600600)) = ''20.0V''
   \<and> ui_bar_battery (the (updateUIFromData (frame_state 0x41A00000) 3600600)) = 100
   \<and> ui_lbl_range (the (updateUIFromData (frame_state 0x41A00000) 3600600))
       \<noteq> snprintf 10 (fmt_1f (constrain_f32 (Fin 20) (Fin 10) (Fin 14)) @ ''V'')"
proof -
  let ?r = "the (updateUIFromData (frame_state 0x41A00000) 3600600)"
  have b: "pkt_batt (latestData (frame_state 0x41A00000)) = Fin 20" by (simp add: batt_20)
  have d: "updateUIFromData (frame_state 0x41A00000) 3600600 = Some ?r"
    by (rule updateUIFromData_defined [of _ 100]) (simp add: batt_20 battPercent_of_above)
  note t = voltage_label_shows_raw_value [OF d]
  have ex: "ui_lbl_range ?r = ''20.0V'' \<and> ui_bar_battery ?r = 100"
    using t [THEN conjunct2, THEN conjunct2, THEN conjunct2, THEN conjunct2, rule_format] b
    by simp
  have ne: "ui_lbl_range ?r \<noteq> snprintf 10 (fmt_1f (constrain_f32 (Fin 20) (Fin 10) (Fin 14)) @ ''V'')"
    using t [THEN conjunct2, THEN conjunct2, THEN conjunct2, THEN conjunct1, rule_format] b
    by simp
  show ?thesis using ex ne b d by simp
qed

section \<open>The callback during an update\<close>

lemma updateUIFromData_split:
  "updateUIFromData st now = updateUIFromData_from_battery (updateUIFromData_upto_trip st now)"
  by (simp add: updateUIFromData_def updateUIFromData_from_battery_def
        updateUIFromData_upto_trip_def trip_step_def Let_def)

lemma upto_trip_fields:
  "latestData (updateUIFromData_upto_trip st now) = latestData st"
  "ui_lbl_speed (updateUIFromData_upto_trip st now)
     = snprintf 10 (fmt_d (speedValue_of (pkt_rpm (latestData st))))"
  "ui_slider_speed (updateUIFromData_upto_trip st now) = speedValue_of (pkt_rpm (latestData st))"
  by (simp_all add: updateUIFromData_upto_trip_def trip_step_def Let_def)

lemma second_rpm: "pkt_rpm (packet_bytes 0 0x41A00000) = 0"
  by code_simp

lemma second_batt: "pkt_batt (packet_bytes 0 0x41A00000) = Fin 20"
  by code_simp

lemma text_0: "fmt_d 0 = ''0''"
  by code_simp

lemma speed_0: "speedValue_of 0 = 0"
  by code_simp

lemma snprintf_100: "snprintf 10 ''100'' = ''100''"
  by (simp add: snprintf_def)

lemma snprintf_0: "snprintf 10 ''0'' = ''0''"
  by (simp add: snprintf_def)

lemma text_12V: "snprintf 10 (fmt_1f (Fin 12) @ ''V'') = ''12.0V''"
  by code_simp

lemma preempted_labels:
  "hasNewData st \<Longrightarrow> sint len = 24 \<Longrightarrow> length d = 24 \<Longrightarrow> battPercent_of (pkt_batt d) = Some p \<Longrightarrow>
   map_option ui_lbl_speed (loop_preempted st now_ui d len now_recv now_link)
     = Some (snprintf 10 (fmt_d (speedValue_of (pkt_rpm (latestData st)))))
   \<and> map_option ui_lbl_range (loop_preempted st now_ui d len now_recv now_link)
     = Some (snprintf 10 (fmt_1f (pkt_batt d) @ ''V''))"
  by (simp add: loop_preempted_def updateUIFromData_from_battery_def onDataRecv_frame
        upto_trip_fields update_link_indicator_def Let_def split: option.split)

lemma loop_labels:
  "hasNewData st \<Longrightarrow> battPercent_of (pkt_batt (latestData st)) = Some p \<Longrightarrow>
   map_option ui_lbl_speed (loop st now_ui now_link)
     = Some (snprintf 10 (fmt_d (speedValue_of (pkt_rpm (latestData st)))))
   \<and> map_option ui_lbl_range (loop st now_ui now_link)
     = Some (snprintf 10 (fmt_1f (pkt_batt (latestData st)) @ ''V''))"
  by (simp add: loop_new updateUIFromData_eq update_link_indicator_def Let_def split: option.split)

text \<open>
  C3: whatever the order of callback writes and loop reads, what the loop renders should
  come from one frame. It does not: \<open>updateUIFromData\<close> reads \<open>latestData\<close> field by field
  with no copy and no lock. Here the first frame (\<open>rpm = 3200\<close>, \<open>batt = 12.0\<close>) is pending,
  the pass of the loop has set the speed label from it, and the callback stores a second
  frame (\<open>rpm = 0\<close>, \<open>batt = 20.0\<close>) before line 162 reads \<open>latestData.batt\<close>: the display
  shows speed \<open>100\<close> with \<open>20.0V\<close>. The first frame alone gives \<open>100\<close> with \<open>12.0V\<close>, the
  second alone \<open>0\<close> with \<open>20.0V\<close>.
\<close>

theorem torn_read_between_rpm_and_batt:
  "map_option ui_lbl_speed
     (loop_preempted example_state 3600600 (packet_bytes 0 0x41A00000) 24 3600601 3600605)
     = Some ''100''
   \<and> map_option ui_lbl_range
       (loop_preempted example_state 3600600 (packet_bytes 0 0x41A00000) 24 3600601 3600605)
     = Some ''20.0V''
   \<and> map_option ui_lbl_speed (loop example_state 3600600 3600605) = Some ''100''
   \<and> map_option ui_lbl_range (loop example_state 3600600 3600605) = Some ''12.0V''
   \<and> map_option ui_lbl_speed
       (loop (onDataRecv example_state (packet_bytes 0 0x41A00000) 24 3600601) 3600602 3600605)
     = Some ''0''
   \<and> map_option ui_lbl_range
       (loop (onDataRecv example_state (packet_bytes 0 0x41A00000) 24 3600601) 3600602 3600605)
     = Some ''20.0V''"
proof -
  have h: "hasNewData example_state" "latestData example_state = packet_bytes 3200 0x41400000"
    by (simp_all add: example_state_eq)
  have p2: "battPercent_of (pkt_batt (packet_bytes 0 0x41A00000)) = Some 100"
    by (simp add: second_batt battPercent_of_above)
  have p1: "battPercent_of (pkt_batt (latestData example_state)) = Some 50"
    by (simp add: h example_batt example_percent)
  let ?s2 = "onDataRecv example_state (packet_bytes 0 0x41A00000) 24 3600601"
  have h2: "hasNewData ?s2" "latestData ?s2 = packet_bytes 0 0x41A00000"
    by (simp_all add: onDataRecv_frame length_packet_bytes)
  have a: "map_option ui_lbl_speed
       (loop_preempted example_state 3600600 (packet_bytes 0 0x41A00000) 24 3600601 3600605)
       = Some ''100''"
    "map_option ui_lbl_range
       (loop_preempted example_state 3600600 (packet_bytes 0 0x41A00000) 24 3600601 3600605)
       = Some ''20.0V''"
    using preempted_labels [OF h(1) _ _ p2, of 24 3600600 3600601 3600605]
    by (simp_all add: length_packet_bytes h example_rpm example_speed text_100 snprintf_100
          second_batt text_20)
  have b: "map_option ui_lbl_speed (loop example_state 3600600 3600605) = Some ''100''"
    "map_option ui_lbl_range (loop example_state 3600600 3600605) = Some ''12.0V''"
    using loop_labels [OF h(1) p1, of 3600600 3600605]
    by (simp_all add: h example_rpm example_speed text_100 snprintf_100 example_batt text_12V)
  have c: "map_option ui_lbl_speed (loop ?s2 3600602 3600605) = Some ''0''"
    "map_option ui_lbl_range (loop ?s2 3600602 3600605) = Some ''20.0V''"
    using loop_labels [OF h2(1), of 100 3600602 3600605] p2
    by (simp_all add: h2 second_rpm speed_0 text_0 snprintf_0 second_batt text_20)
  show ?thesis using a b c by simp
qed


end
